theory Spec2Isabelle
  imports Main "HOL-Library.AList"
begin

section \<open>JavaScript values and arrays used by App.js\<close>

text \<open>
  A square of the board holds \<^verbatim>\<open>null\<close>, the string \<^verbatim>\<open>"X"\<close> or the string
  \<^verbatim>\<open>"O"\<close>; these are the only values the component ever stores. A read that finds
  nothing (an index past the end, a hole, a missing property) yields \<^verbatim>\<open>undefined\<close>,
  modelled as \<open>None\<close> of \<open>cell option\<close>.
\<close>

datatype cell = Null | MarkX | MarkO

fun truthy :: "cell \<Rightarrow> bool" where
  "truthy Null = False"
| "truthy MarkX = True"
| "truthy MarkO = True"

text \<open>
  A board is a JavaScript array. \<open>elems\<close> are its indexed elements \<open>0 .. length - 1\<close>,
  \<open>None\<close> being a hole; \<open>props\<close> are the properties stored under keys that are not
  array indices (a negative number, or one from \<open>2^32 - 1\<close> on), in insertion order.
\<close>

record squares =
  elems :: "cell option list"
  props :: "(int \<times> cell) list"

definition is_index :: "int \<Rightarrow> bool" where
  "is_index i = (0 \<le> i \<and> i < 4294967295)"

text \<open>\<^verbatim>\<open>squares[i]\<close>\<close>

definition sq_get :: "squares \<Rightarrow> int \<Rightarrow> cell option" where
  "sq_get sq i =
     (if is_index i
      then (if nat i < length (elems sq) then elems sq ! nat i else None)
      else map_of (props sq) i)"

text \<open>\<^verbatim>\<open>squares[i] = v\<close>: a write past the end extends the array, leaving holes.\<close>

definition sq_set :: "squares \<Rightarrow> int \<Rightarrow> cell \<Rightarrow> squares" where
  "sq_set sq i v =
     (if is_index i
      then (if nat i < length (elems sq)
            then sq\<lparr>elems := (elems sq)[nat i := Some v]\<rparr>
            else sq\<lparr>elems := elems sq @ replicate (nat i - length (elems sq)) None @ [Some v]\<rparr>)
      else sq\<lparr>props := AList.update i v (props sq)\<rparr>)"

text \<open>\<^verbatim>\<open>squares.slice()\<close>: a fresh array with the indexed elements (holes kept) only.\<close>

definition slice_copy :: "squares \<Rightarrow> squares" where
  "slice_copy sq = \<lparr>elems = elems sq, props = []\<rparr>"

text \<open>\<^verbatim>\<open>squares.every(Boolean)\<close>: holes are skipped.\<close>

definition every_Boolean :: "squares \<Rightarrow> bool" where
  "every_Boolean sq = list_all (\<lambda>e. case e of None \<Rightarrow> True | Some v \<Rightarrow> truthy v) (elems sq)"

text \<open>\<^verbatim>\<open>Array(9).fill(null)\<close>\<close>

definition Array9_null :: squares where
  "Array9_null = \<lparr>elems = replicate 9 (Some Null), props = []\<rparr>"

text \<open>\<^verbatim>\<open>xs.slice(0, e)\<close> on a dense array.\<close>

definition slice0 :: "'a list \<Rightarrow> int \<Rightarrow> 'a list" where
  "slice0 xs e =
     (let n = int (length xs);
          k = (if e < 0 then max (n + e) 0 else min e n)
      in take (nat k) xs)"

text \<open>\<^verbatim>\<open>a % b\<close> on integers, \<open>b \<noteq> 0\<close>: the remainder has the sign of the dividend.\<close>

definition js_rem :: "int \<Rightarrow> int \<Rightarrow> int" where
  "js_rem a b = sgn a * (\<bar>a\<bar> mod \<bar>b\<bar>)"

section \<open>calculateWinner\<close>

record winner_info =
  winner :: cell
  line :: "nat \<times> nat \<times> nat"

definition lines :: "(nat \<times> nat \<times> nat) list" where
  "lines =
     [(0, 1, 2), (3, 4, 5), (6, 7, 8),
      (0, 3, 6), (1, 4, 7), (2, 5, 8),
      (0, 4, 8), (2, 4, 6)]"

text \<open>The \<^verbatim>\<open>for\<close> loop over \<^verbatim>\<open>lines\<close>, from the entry it has reached.\<close>

fun scan_lines :: "squares \<Rightarrow> (nat \<times> nat \<times> nat) list \<Rightarrow> winner_info option" where
  "scan_lines sq [] = None"
| "scan_lines sq ((a, b, c) # ls) =
     (case sq_get sq (int a) of
        None \<Rightarrow> scan_lines sq ls
      | Some v \<Rightarrow>
          if truthy v \<and> Some v = sq_get sq (int b) \<and> Some v = sq_get sq (int c)
          then Some \<lparr>winner = v, line = (a, b, c)\<rparr>
          else scan_lines sq ls)"

definition calculateWinner :: "squares \<Rightarrow> winner_info option" where
  "calculateWinner sq = scan_lines sq lines"

section \<open>The App component\<close>

record app =
  history :: "squares list"
  stepNumber :: int
  xIsNext :: bool
  theme :: string

text \<open>The state of the first render: the arguments of the four \<^verbatim>\<open>useState\<close> calls.\<close>

definition App_init :: app where
  "App_init = \<lparr>history = [Array9_null], stepNumber = 0, xIsNext = True, theme = ''light''\<rparr>"

datatype error = TypeError

text \<open>
  The values every render derives from the state. \<^verbatim>\<open>history[stepNumber]\<close> is
  \<^verbatim>\<open>undefined\<close> when \<open>stepNumber\<close> is no index of \<open>history\<close>, and
  \<^verbatim>\<open>calculateWinner(undefined)\<close> throws a TypeError at \<^verbatim>\<open>squares[a]\<close>.
\<close>

record view =
  currentSquares :: squares
  winnerInfo :: "winner_info option"
  isDraw :: bool

definition render :: "app \<Rightarrow> error + view" where
  "render s =
     (if 0 \<le> stepNumber s \<and> stepNumber s < int (length (history s))
      then (let cur = history s ! nat (stepNumber s);
                w = calculateWinner cur
            in Inr \<lparr>currentSquares = cur, winnerInfo = w,
                     isDraw = (w = None \<and> every_Boolean cur)\<rparr>)
      else Inl TypeError)"

text \<open>The handlers are closures of a render: \<open>handleClick\<close> reads that render's values.\<close>

definition handleClick :: "view \<Rightarrow> int \<Rightarrow> app \<Rightarrow> app" where
  "handleClick v i s =
     (if winnerInfo v \<noteq> None \<or> (case sq_get (currentSquares v) i of None \<Rightarrow> False | Some c \<Rightarrow> truthy c)
      then s
      else (let squares = sq_set (slice_copy (currentSquares v)) i (if xIsNext s then MarkX else MarkO);
                newHistory = slice0 (history s) (stepNumber s + 1) @ [squares]
            in s\<lparr>history := newHistory,
                  stepNumber := int (length newHistory) - 1,
                  xIsNext := \<not> xIsNext s\<rparr>))"

definition jumpTo :: "int \<Rightarrow> app \<Rightarrow> app" where
  "jumpTo step s = s\<lparr>stepNumber := step, xIsNext := (js_rem step 2 = 0)\<rparr>"

definition handleReset :: "app \<Rightarrow> app" where
  "handleReset s = s\<lparr>history := [Array9_null], stepNumber := 0, xIsNext := True\<rparr>"

definition handleUndo :: "app \<Rightarrow> app" where
  "handleUndo s =
     (if stepNumber s > 0
      then s\<lparr>stepNumber := stepNumber s - 1, xIsNext := (js_rem (stepNumber s - 1) 2 = 0)\<rparr>
      else s)"

definition handleRedo :: "app \<Rightarrow> app" where
  "handleRedo s =
     (if stepNumber s < int (length (history s)) - 1
      then s\<lparr>stepNumber := stepNumber s + 1, xIsNext := (js_rem (stepNumber s + 1) 2 = 0)\<rparr>
      else s)"

text \<open>The theme button: \<^verbatim>\<open>setTheme(prev => prev === "light" ? "dark" : "light")\<close>.\<close>

definition toggleTheme :: "app \<Rightarrow> app" where
  "toggleTheme s = s\<lparr>theme := (if theme s = ''light'' then ''dark'' else ''light'')\<rparr>"

subsection \<open>Events\<close>

datatype command = Click int | JumpTo int | Reset | Undo | Redo | ToggleTheme

text \<open>
  An event reaches a handler only while the component is mounted, that is when the
  render of the current state did not throw.
\<close>

definition exec :: "command \<Rightarrow> app \<Rightarrow> error + app" where
  "exec c s =
     (case render s of
        Inl e \<Rightarrow> Inl e
      | Inr v \<Rightarrow>
          Inr (case c of
                 Click i \<Rightarrow> handleClick v i s
               | JumpTo step \<Rightarrow> jumpTo step s
               | Reset \<Rightarrow> handleReset s
               | Undo \<Rightarrow> handleUndo s
               | Redo \<Rightarrow> handleRedo s
               | ToggleTheme \<Rightarrow> toggleTheme s))"

fun run :: "command list \<Rightarrow> app \<Rightarrow> error + app" where
  "run [] s = Inr s"
| "run (c # cs) s = (case exec c s of Inl e \<Rightarrow> Inl e | Inr s' \<Rightarrow> run cs s')"

text \<open>
  What the status bar shows for a board: the branches \<^verbatim>\<open>if (winnerInfo)\<close>,
  \<^verbatim>\<open>else if (isDraw)\<close>, \<^verbatim>\<open>else\<close> of the render, with the line handed to
  \<^verbatim>\<open>Board\<close> as \<^verbatim>\<open>winningLine\<close>.
\<close>

datatype outcome = InProgress | Win cell "nat \<times> nat \<times> nat" | Draw

definition outcome_of :: "squares \<Rightarrow> outcome" where
  "outcome_of sq =
     (case calculateWinner sq of
        Some w \<Rightarrow> Win (winner w) (line w)
      | None \<Rightarrow> if every_Boolean sq then Draw else InProgress)"

section \<open>The specification's outcome evaluation\<close>

text \<open>
  The evaluation as the specification words it, on a board given as the list of its nine
  cells: the eight triples in the stated order, the first one whose three cells are
  non-empty and equal wins; with no such triple a full board is a draw.
\<close>

definition triples :: "(nat \<times> nat \<times> nat) list" where
  "triples =
     [(0, 1, 2), (3, 4, 5), (6, 7, 8), (0, 3, 6), (1, 4, 7), (2, 5, 8), (0, 4, 8), (2, 4, 6)]"

definition three_in_row :: "cell list \<Rightarrow> nat \<times> nat \<times> nat \<Rightarrow> bool" where
  "three_in_row b t =
     (case t of (x, y, z) \<Rightarrow> b ! x \<noteq> Null \<and> b ! y \<noteq> Null \<and> b ! z \<noteq> Null \<and> b ! x = b ! y \<and> b ! y = b ! z)"

definition spec_evaluate :: "cell list \<Rightarrow> outcome" where
  "spec_evaluate b =
     (case find (three_in_row b) triples of
        Some t \<Rightarrow> Win (b ! fst t) t
      | None \<Rightarrow> if list_all (\<lambda>c. c \<noteq> Null) b then Draw else InProgress)"

text \<open>The array that holds exactly the cells \<open>b\<close>.\<close>

definition board_of :: "cell list \<Rightarrow> squares" where
  "board_of b = \<lparr>elems = map Some b, props = []\<rparr>"

section \<open>Legal commands, reachable states, observations\<close>

fun legal :: "command \<Rightarrow> app \<Rightarrow> bool" where
  "legal (Click i) s = (0 \<le> i \<and> i \<le> 8)"
| "legal (JumpTo step) s = (0 \<le> step \<and> step \<le> int (length (history s)) - 1)"
| "legal Reset s = True"
| "legal Undo s = True"
| "legal Redo s = True"
| "legal ToggleTheme s = True"

inductive reachable :: "app \<Rightarrow> bool" where
  start: "reachable App_init"
| step: "reachable s \<Longrightarrow> legal c s \<Longrightarrow> exec c s = Inr s' \<Longrightarrow> reachable s'"

text \<open>The mark of the player who moves at step \<open>k\<close> when X opens the game.\<close>

definition mover :: "nat \<Rightarrow> cell" where
  "mover k = (if even k then MarkX else MarkO)"

text \<open>
  Boards \<open>b\<close> and \<open>b'\<close> differ in exactly one of the cells 0 to 8, which is empty in \<open>b\<close>
  and holds the mark of the mover of step \<open>k\<close> in \<open>b'\<close>.
\<close>

definition one_move :: "nat \<Rightarrow> squares \<Rightarrow> squares \<Rightarrow> bool" where
  "one_move k b b' =
     list_ex (\<lambda>i. sq_get b (int i) = Some Null \<and> sq_get b' (int i) = Some (mover k)
                 \<and> filter (\<lambda>j. sq_get b' (int j) \<noteq> sq_get b (int j)) [0..<9] = [i]) [0..<9]"

text \<open>An array of exactly nine cells and nothing else.\<close>

definition board9 :: "squares \<Rightarrow> bool" where
  "board9 sq = (length (elems sq) = 9 \<and> list_all (\<lambda>e. e \<noteq> None) (elems sq) \<and> props sq = [])"

definition game_inv :: "app \<Rightarrow> bool" where
  "game_inv s =
     (0 \<le> stepNumber s \<and> stepNumber s < int (length (history s))
      \<and> xIsNext s = even (stepNumber s)
      \<and> list_all board9 (history s)
      \<and> list_all (\<lambda>k. one_move k (history s ! k) (history s ! Suc k)) [0..<length (history s) - 1])"

text \<open>The game part of the state, and what a run shows on the screen at its end.\<close>

definition game :: "app \<Rightarrow> squares list \<times> int \<times> bool" where
  "game s = (history s, stepNumber s, xIsNext s)"

definition game_commands :: "command list \<Rightarrow> command list" where
  "game_commands cs = filter (\<lambda>c. c \<noteq> ToggleTheme) cs"

definition observe :: "command list \<Rightarrow> app \<Rightarrow> error + ((squares list \<times> int \<times> bool) \<times> view)" where
  "observe cs s =
     (case run cs s of
        Inl e \<Rightarrow> Inl e
      | Inr s' \<Rightarrow> (case render s' of Inl e \<Rightarrow> Inl e | Inr v \<Rightarrow> Inr (game s', v)))"

section \<open>Example states\<close>

text \<open>The state after X has played cell 0 and O has played cell 4.\<close>

definition example_two_moves :: app where
  "example_two_moves =
     \<lparr>history =
        [\<lparr>elems = [Some Null, Some Null, Some Null,
                          Some Null, Some Null, Some Null,
                          Some Null, Some Null, Some Null], props = []\<rparr>,
         \<lparr>elems = [Some MarkX, Some Null, Some Null,
                          Some Null, Some Null, Some Null,
                          Some Null, Some Null, Some Null], props = []\<rparr>,
         \<lparr>elems = [Some MarkX, Some Null, Some Null,
                          Some Null, Some MarkO, Some Null,
                          Some Null, Some Null, Some Null], props = []\<rparr>],
      stepNumber = 2, xIsNext = True, theme = ''light''\<rparr>"

text \<open>The state after the moves 0, 4, 1, 3, 2: X holds the top row.\<close>

definition example_x_wins :: app where
  "example_x_wins =
     \<lparr>history =
        [\<lparr>elems = [Some Null, Some Null, Some Null,
                          Some Null, Some Null, Some Null,
                          Some Null, Some Null, Some Null], props = []\<rparr>,
         \<lparr>elems = [Some MarkX, Some Null, Some Null,
                          Some Null, Some Null, Some Null,
                          Some Null, Some Null, Some Null], props = []\<rparr>,
         \<lparr>elems = [Some MarkX, Some Null, Some Null,
                          Some Null, Some MarkO, Some Null,
                          Some Null, Some Null, Some Null], props = []\<rparr>,
         \<lparr>elems = [Some MarkX, Some MarkX, Some Null,
                          Some Null, Some MarkO, Some Null,
                          Some Null, Some Null, Some Null], props = []\<rparr>,
         \<lparr>elems = [Some MarkX, Some MarkX, Some Null,
                          Some MarkO, Some MarkO, Some Null,
                          Some Null, Some Null, Some Null], props = []\<rparr>,
         \<lparr>elems = [Some MarkX, Some MarkX, Some MarkX,
                          Some MarkO, Some MarkO, Some Null,
                          Some Null, Some Null, Some Null], props = []\<rparr>],
      stepNumber = 5, xIsNext = False, theme = ''light''\<rparr>"

text \<open>
  The state after an undo and a play on cell 5 from the state above: the winning board
  is replaced.
\<close>

definition example_replayed :: app where
  "example_replayed =
     \<lparr>history =
        [\<lparr>elems = [Some Null, Some Null, Some Null,
                    Some Null, Some Null, Some Null,
                    Some Null, Some Null, Some Null], props = []\<rparr>,
         \<lparr>elems = [Some MarkX, Some Null, Some Null,
                    Some Null, Some Null, Some Null,
                    Some Null, Some Null, Some Null], props = []\<rparr>,
         \<lparr>elems = [Some MarkX, Some Null, Some Null,
                    Some Null, Some MarkO, Some Null,
                    Some Null, Some Null, Some Null], props = []\<rparr>,
         \<lparr>elems = [Some MarkX, Some MarkX, Some Null,
                    Some Null, Some MarkO, Some Null,
                    Some Null, Some Null, Some Null], props = []\<rparr>,
         \<lparr>elems = [Some MarkX, Some MarkX, Some Null,
                    Some MarkO, Some MarkO, Some Null,
                    Some Null, Some Null, Some Null], props = []\<rparr>,
         \<lparr>elems = [Some MarkX, Some MarkX, Some Null,
                    Some MarkO, Some MarkO, Some MarkX,
                    Some Null, Some Null, Some Null], props = []\<rparr>],
      stepNumber = 5, xIsNext = False, theme = ''light''\<rparr>"

text \<open>The state after a play on position 9 from the initial state.\<close>

definition example_mark_outside :: app where
  "example_mark_outside =
     \<lparr>history =
        [\<lparr>elems = [Some Null, Some Null, Some Null,
                          Some Null, Some Null, Some Null,
                          Some Null, Some Null, Some Null], props = []\<rparr>,
         \<lparr>elems = [Some Null, Some Null, Some Null, Some Null, Some Null, Some Null, Some Null, Some Null, Some Null, Some MarkX], props = []\<rparr>],
      stepNumber = 1, xIsNext = False, theme = ''light''\<rparr>"

section \<open>Basic facts\<close>

lemma js_rem_2_even: "(js_rem a 2 = 0) = even a"
  by (auto simp: js_rem_def sgn_if)

lemma truthy_iff: "truthy v = (v \<noteq> Null)"
  by (cases v) simp_all

lemma slice0_in_range:
  "0 \<le> n \<Longrightarrow> n < int (length xs) \<Longrightarrow> slice0 xs (n + 1) = take (nat n + 1) xs"
  by (simp add: slice0_def Let_def min_def nat_add_distrib)

lemma render_in_range:
  assumes "0 \<le> stepNumber s" and "stepNumber s < int (length (history s))"
  shows "render s = Inr \<lparr>currentSquares = history s ! nat (stepNumber s),
                          winnerInfo = calculateWinner (history s ! nat (stepNumber s)),
                          isDraw = (calculateWinner (history s ! nat (stepNumber s)) = None
                                    \<and> every_Boolean (history s ! nat (stepNumber s)))\<rparr>"
  using assms by (simp add: render_def Let_def)

lemma render_Inr:
  assumes "render s = Inr v"
  shows "0 \<le> stepNumber s" and "stepNumber s < int (length (history s))"
    and "currentSquares v = history s ! nat (stepNumber s)"
    and "winnerInfo v = calculateWinner (currentSquares v)"
    and "isDraw v = (winnerInfo v = None \<and> every_Boolean (currentSquares v))"
  using assms by (auto simp: render_def Let_def split: if_splits)

lemma outcome_of_view:
  assumes "render s = Inr v"
  shows "outcome_of (currentSquares v) =
         (case winnerInfo v of
            Some w \<Rightarrow> Win (winner w) (line w)
          | None \<Rightarrow> if isDraw v then Draw else InProgress)"
  using render_Inr(4,5) [OF assms] by (simp add: outcome_of_def split: option.splits)

section \<open>Outcome evaluation\<close>

lemma sq_get_board_of: "x < length b \<Longrightarrow> x < 9 \<Longrightarrow> sq_get (board_of b) (int x) = Some (b ! x)"
  by (simp add: sq_get_def board_of_def is_index_def)

lemma three_in_row_triple:
  "three_in_row b (x, y, z) =
     (b ! x \<noteq> Null \<and> b ! y \<noteq> Null \<and> b ! z \<noteq> Null \<and> b ! x = b ! y \<and> b ! y = b ! z)"
  by (simp add: three_in_row_def)

text \<open>The loop returns the first entry of its list that is three in a row.\<close>

lemma scan_lines_find:
  assumes "list_all (\<lambda>(x, y, z). x < 9 \<and> y < 9 \<and> z < 9) ls" and "length b = 9"
  shows "scan_lines (board_of b) ls =
         (case find (three_in_row b) ls of
            None \<Rightarrow> None
          | Some t \<Rightarrow> Some \<lparr>winner = b ! fst t, line = t\<rparr>)"
  using assms(1)
proof (induction ls)
  case Nil
  then show ?case by simp
next
  case (Cons t ls)
  obtain x y z where t: "t = (x, y, z)" by (cases t)
  with Cons.prems assms(2)
  have in_range: "x < 9" "y < 9" "z < 9" "x < length b" "y < length b" "z < length b"
    by auto
  have tail: "scan_lines (board_of b) ls =
         (case find (three_in_row b) ls of
            None \<Rightarrow> None
          | Some t \<Rightarrow> Some \<lparr>winner = b ! fst t, line = t\<rparr>)"
    using Cons by simp
  show ?case
    using in_range
    by (auto simp: t tail sq_get_board_of truthy_iff three_in_row_triple)
qed

lemma every_Boolean_board_of: "every_Boolean (board_of b) = list_all (\<lambda>c. c \<noteq> Null) b"
  by (simp add: every_Boolean_def board_of_def list_all_iff truthy_iff)

lemma triples_in_range: "list_all (\<lambda>(x, y, z). x < 9 \<and> y < 9 \<and> z < 9) triples"
  by (simp add: triples_def)

lemma lines_triples: "lines = triples"
  by (simp add: lines_def triples_def)

text \<open>
  Claim C2. On every board of nine cells, what the component derives (the winner found by
  \<open>calculateWinner\<close> with its line, else a draw when \<open>every(Boolean)\<close> holds, else a game
  in progress) is the specification's evaluation: the eight triples rows, columns,
  diagonals in that order, a win with the mark and the triple of the first one whose cells
  are non-empty and equal, a draw when none is and the board is full, in progress
  otherwise.
\<close>

theorem outcome_refines_spec:
  assumes "length b = 9"
  shows "outcome_of (board_of b) = spec_evaluate b"
  using scan_lines_find [OF triples_in_range assms]
  by (simp add: outcome_of_def spec_evaluate_def calculateWinner_def lines_triples
      every_Boolean_board_of split: option.splits)

theorem outcome_refines_spec_witness:
  "length [MarkX, MarkX, MarkX, Null, MarkO, MarkO, Null, Null, Null] = 9
   \<and> outcome_of (board_of [MarkX, MarkX, MarkX, Null, MarkO, MarkO, Null, Null, Null])
       = Win MarkX (0, 1, 2)
   \<and> spec_evaluate [MarkX, MarkX, MarkX, Null, MarkO, MarkO, Null, Null, Null]
       = Win MarkX (0, 1, 2)
   \<and> outcome_of (board_of [MarkX, MarkO, MarkX, MarkO, MarkX, MarkO, MarkO, MarkX, MarkO]) = Draw
   \<and> outcome_of (board_of [MarkX, MarkO, Null, Null, Null, Null, Null, Null, Null]) = InProgress"
proof -
  have len: "length [MarkX, MarkX, MarkX, Null, MarkO, MarkO, Null, Null, Null] = 9"
    by simp
  have "spec_evaluate [MarkX, MarkX, MarkX, Null, MarkO, MarkO, Null, Null, Null]
          = Win MarkX (0, 1, 2)"
    by (simp add: spec_evaluate_def triples_def three_in_row_def)
  moreover have
    "outcome_of (board_of [MarkX, MarkO, MarkX, MarkO, MarkX, MarkO, MarkO, MarkX, MarkO]) = Draw"
    "outcome_of (board_of [MarkX, MarkO, Null, Null, Null, Null, Null, Null, Null]) = InProgress"
    by code_simp+
  ultimately show ?thesis using len outcome_refines_spec [OF len] by simp
qed

section \<open>Reset\<close>

text \<open>
  Claim C7. From any state whatever (any history, any cursor, any turn flag), reset
  installs the one-entry history holding the board of nine \<^verbatim>\<open>null\<close> squares, cursor 0
  and X to move: the game part of the initial state.
\<close>

theorem reset_restores_initial:
  "history (handleReset s) = [\<lparr>elems = [Some Null, Some Null, Some Null,
                                        Some Null, Some Null, Some Null,
                                        Some Null, Some Null, Some Null], props = []\<rparr>]
   \<and> stepNumber (handleReset s) = 0
   \<and> xIsNext (handleReset s) = True
   \<and> handleReset s = App_init\<lparr>theme := theme s\<rparr>"
  by (simp add: handleReset_def App_init_def Array9_null_def numeral_eq_Suc)

section \<open>Undo and redo\<close>

text \<open>
  Claim C6. In every state, undo is \<open>jumpTo (cursor - 1)\<close> when the cursor is positive and
  leaves the whole state as it is otherwise; redo is \<open>jumpTo (cursor + 1)\<close> when the cursor
  is below the last index of the history and leaves the state as it is otherwise; neither
  changes the history.
\<close>

theorem undo_redo_as_jumpTo:
  "handleUndo s = (if 0 < stepNumber s then jumpTo (stepNumber s - 1) s else s)
   \<and> handleRedo s =
       (if stepNumber s < int (length (history s)) - 1 then jumpTo (stepNumber s + 1) s else s)
   \<and> history (handleUndo s) = history s
   \<and> history (handleRedo s) = history s"
  by (simp add: handleUndo_def handleRedo_def jumpTo_def)

section \<open>jumpTo\<close>

text \<open>
  Claim C8, as stated, fails: \<open>jumpTo\<close> neither clamps nor rejects. From the initial
  state, whose history has one entry, \<open>jumpTo 5\<close> leaves the cursor at 5.
\<close>

theorem jumpTo_out_of_range_counterexample:
  "\<not> (0 \<le> stepNumber (jumpTo 5 App_init)
       \<and> stepNumber (jumpTo 5 App_init) \<le> int (length (history (jumpTo 5 App_init))) - 1)"
  by (simp add: jumpTo_def App_init_def)

text \<open>
  Claim C8, amended. For every state and every integer step, \<open>jumpTo\<close> stores the step
  as the cursor as it is, keeps the history and sets the turn flag from the step's parity.
  So the cursor is within the history after the call exactly when the step was, and for a
  step outside the history the next render throws.
\<close>

theorem jumpTo_stores_step:
  "stepNumber (jumpTo step s) = step
   \<and> history (jumpTo step s) = history s
   \<and> xIsNext (jumpTo step s) = even step
   \<and> (0 \<le> stepNumber (jumpTo step s)
        \<and> stepNumber (jumpTo step s) \<le> int (length (history (jumpTo step s))) - 1)
     = (0 \<le> step \<and> step \<le> int (length (history s)) - 1)
   \<and> (render (jumpTo step s) = Inl TypeError)
     = (step < 0 \<or> int (length (history s)) - 1 < step)"
  by (auto simp: jumpTo_def js_rem_2_even render_def Let_def)

section \<open>Clicks\<close>

text \<open>A click that passes the guard of \<open>handleClick\<close>, and one that does not.\<close>

lemma handleClick_move:
  assumes "render s = Inr v"
    and "winnerInfo v = None"
    and "sq_get (currentSquares v) i = None \<or> sq_get (currentSquares v) i = Some Null"
  shows "handleClick v i s =
         s\<lparr>history := take (nat (stepNumber s) + 1) (history s)
                        @ [sq_set (slice_copy (currentSquares v)) i (if xIsNext s then MarkX else MarkO)],
           stepNumber := stepNumber s + 1,
           xIsNext := \<not> xIsNext s\<rparr>"
proof -
  have r: "0 \<le> stepNumber s" "stepNumber s < int (length (history s))"
    using render_Inr [OF assms(1)] by simp_all
  have len: "int (length (take (nat (stepNumber s) + 1) (history s))) = stepNumber s + 1"
    using r by simp
  show ?thesis
    using assms(2,3) r len
    by (auto simp: handleClick_def Let_def slice0_in_range)
qed

lemma handleClick_ignored:
  assumes "winnerInfo v \<noteq> None \<or> sq_get (currentSquares v) i = Some MarkX
           \<or> sq_get (currentSquares v) i = Some MarkO"
  shows "handleClick v i s = s"
  using assms by (auto simp: handleClick_def)

lemma exec_click_move:
  assumes "render s = Inr v"
    and "winnerInfo v = None"
    and "sq_get (currentSquares v) i = None \<or> sq_get (currentSquares v) i = Some Null"
  shows "exec (Click i) s =
         Inr (s\<lparr>history := take (nat (stepNumber s) + 1) (history s)
                        @ [sq_set (slice_copy (currentSquares v)) i (if xIsNext s then MarkX else MarkO)],
           stepNumber := stepNumber s + 1,
           xIsNext := \<not> xIsNext s\<rparr>)"
  using handleClick_move [OF assms] assms(1) by (simp add: exec_def)

lemma exec_click_ignored:
  assumes "render s = Inr v"
    and "winnerInfo v \<noteq> None \<or> sq_get (currentSquares v) i = Some MarkX
           \<or> sq_get (currentSquares v) i = Some MarkO"
  shows "exec (Click i) s = Inr s"
  using handleClick_ignored [OF assms(2)] assms(1) by (simp add: exec_def)

lemma outcome_InProgress:
  assumes "render s = Inr v" and "outcome_of (currentSquares v) = InProgress"
  shows "winnerInfo v = None" and "\<not> every_Boolean (currentSquares v)"
  using assms render_Inr(4) [OF assms(1)]
  by (auto simp: outcome_of_def split: option.splits if_splits)

lemma sq_get_cell:
  assumes "sq_get b i = Some c" and "0 \<le> i" and "i \<le> 8"
  shows "nat i < length (elems b)" and "elems b ! nat i = Some c"
  using assms by (auto simp: sq_get_def is_index_def split: if_splits)

lemma sq_set_cell:
  assumes "nat i < length (elems b)" and "0 \<le> i" and "i \<le> 8"
  shows "sq_set (slice_copy b) i m = \<lparr>elems = (elems b)[nat i := Some m], props = []\<rparr>"
  using assms by (simp add: sq_set_def slice_copy_def is_index_def)

lemma play_move:
  assumes "render s = Inr v" and "xIsNext s = even (stepNumber s)"
    and "0 \<le> i" and "i \<le> 8"
    and "outcome_of (currentSquares v) = InProgress"
    and "sq_get (currentSquares v) i = Some Null"
  shows "\<exists>s'. exec (Click i) s = Inr s'
           \<and> history s' = take (nat (stepNumber s) + 1) (history s)
                @ [\<lparr>elems = (elems (history s ! nat (stepNumber s)))
                              [nat i := Some (if even (stepNumber s) then MarkX else MarkO)],
                    props = []\<rparr>]
           \<and> stepNumber s' = int (length (history s')) - 1
           \<and> stepNumber s' = stepNumber s + 1
           \<and> xIsNext s' = even (stepNumber s')
           \<and> theme s' = theme s"
proof -
  have cur: "currentSquares v = history s ! nat (stepNumber s)"
    and r: "0 \<le> stepNumber s" "stepNumber s < int (length (history s))"
    using render_Inr [OF assms(1)] by simp_all
  have w: "winnerInfo v = None" using outcome_InProgress(1) [OF assms(1,5)] .
  have nb: "sq_set (slice_copy (currentSquares v)) i (if xIsNext s then MarkX else MarkO)
        = \<lparr>elems = (elems (history s ! nat (stepNumber s)))
                              [nat i := Some (if even (stepNumber s) then MarkX else MarkO)],
                    props = []\<rparr>"
    using sq_set_cell [OF sq_get_cell(1) [OF assms(6,3,4)] assms(3,4)] assms(2) cur by simp
  have len: "int (length (take (nat (stepNumber s) + 1) (history s))) = stepNumber s + 1"
    using r by simp
  have ex: "exec (Click i) s =
         Inr (s\<lparr>history := take (nat (stepNumber s) + 1) (history s)
                @ [\<lparr>elems = (elems (history s ! nat (stepNumber s)))
                              [nat i := Some (if even (stepNumber s) then MarkX else MarkO)],
                    props = []\<rparr>],
           stepNumber := stepNumber s + 1,
           xIsNext := \<not> xIsNext s\<rparr>)"
    using exec_click_move [OF assms(1) w disjI2 [OF assms(6)]] unfolding nb .
  show ?thesis
    unfolding ex using len assms(2) by simp
qed

lemma exec_click_at:
  assumes "0 \<le> stepNumber s" and "stepNumber s < int (length (history s))"
    and "calculateWinner (history s ! nat (stepNumber s)) = None"
    and "sq_get (history s ! nat (stepNumber s)) i = Some Null"
    and "0 \<le> i" and "i \<le> 8"
  shows "exec (Click i) s =
         Inr (s\<lparr>history := take (nat (stepNumber s) + 1) (history s)
                  @ [\<lparr>elems = (elems (history s ! nat (stepNumber s)))
                                [nat i := Some (if xIsNext s then MarkX else MarkO)],
                      props = []\<rparr>],
                stepNumber := stepNumber s + 1,
                xIsNext := \<not> xIsNext s\<rparr>)"
proof -
  let ?cur = "history s ! nat (stepNumber s)"
  let ?v = "\<lparr>currentSquares = ?cur, winnerInfo = calculateWinner ?cur,
             isDraw = (calculateWinner ?cur = None \<and> every_Boolean ?cur)\<rparr>"
  have r: "render s = Inr ?v" using render_in_range [OF assms(1,2)] .
  have nb: "sq_set (slice_copy ?cur) i (if xIsNext s then MarkX else MarkO)
            = \<lparr>elems = (elems ?cur)[nat i := Some (if xIsNext s then MarkX else MarkO)], props = []\<rparr>"
    using sq_set_cell [OF sq_get_cell(1) [OF assms(4,5,6)] assms(5,6)] .
  show ?thesis
    using exec_click_move [OF r, of i] assms(3,4) by (simp add: nb)
qed

subsection \<open>Boards without a winner\<close>

lemma scan_lines_Some:
  assumes "scan_lines sq ls = Some w"
  shows "\<exists>(x, y, z) \<in> set ls. sq_get sq (int x) = Some (winner w)
           \<and> sq_get sq (int y) = Some (winner w) \<and> winner w \<noteq> Null"
  using assms
proof (induction ls)
  case Nil
  then show ?case by simp
next
  case (Cons t ls)
  obtain x y z where t: "t = (x, y, z)" by (cases t)
  show ?case
  proof (cases "scan_lines sq ls = Some w")
    case True
    with Cons.IH show ?thesis by auto
  next
    case False
    with Cons.prems show ?thesis
      by (auto simp: t truthy_iff split: option.splits if_splits)
  qed
qed

lemma lines_two_cells: "list_all (\<lambda>(x, y, z). x \<noteq> y \<and> x < 9 \<and> y < 9) lines"
  by (simp add: lines_def)

text \<open>A board with a single mark has no winner.\<close>

lemma no_winner_one_mark:
  assumes "n < 9"
  shows "calculateWinner \<lparr>elems = (replicate 9 (Some Null))[n := Some m], props = []\<rparr> = None"
proof (rule ccontr)
  let ?b = "\<lparr>elems = (replicate 9 (Some Null))[n := Some m], props = []\<rparr>"
  assume "calculateWinner ?b \<noteq> None"
  then obtain w where "scan_lines ?b lines = Some w"
    by (auto simp: calculateWinner_def)
  from scan_lines_Some [OF this] obtain x y z where
    t: "(x, y, z) \<in> set lines" and x: "sq_get ?b (int x) = Some (winner w)"
    and y: "sq_get ?b (int y) = Some (winner w)" and w: "winner w \<noteq> Null"
    by auto
  from t lines_two_cells have d: "x \<noteq> y" "x < 9" "y < 9"
    by (auto simp: list_all_iff)
  have "x = n" using x w d(2) assms
    by (auto simp: sq_get_def is_index_def nth_list_update split: if_splits)
  moreover have "y = n" using y w d(3) assms
    by (auto simp: sq_get_def is_index_def nth_list_update split: if_splits)
  ultimately show False using d(1) by simp
qed

lemma calculateWinner_empty: "calculateWinner Array9_null = None"
  by (simp add: calculateWinner_def lines_def Array9_null_def sq_get_def is_index_def)

lemma exec_Undo_at:
  assumes "0 \<le> stepNumber s" and "stepNumber s < int (length (history s))"
  shows "exec Undo s = Inr (handleUndo s)"
  using render_in_range [OF assms] by (simp add: exec_def)

text \<open>
  Two moves on different cells, an undo, and a move on a third cell: the board of the
  undone move is replaced.
\<close>

lemma branch_pruning:
  assumes "0 \<le> a" "a \<le> 8" "0 \<le> b" "b \<le> 8" "0 \<le> c" "c \<le> 8"
    and "b \<noteq> a" and "c \<noteq> a" and "c \<noteq> b"
  shows "\<exists>s'. run [Click a, Click b, Undo, Click c] App_init = Inr s' \<and> length (history s') = 3
           \<and> stepNumber s' = 2"
proof -
  define b1 where "b1 = \<lparr>elems = (replicate 9 (Some Null))[nat a := Some MarkX], props = []\<rparr>"
  define b2 where "b2 = \<lparr>elems = (elems b1)[nat b := Some MarkO], props = []\<rparr>"
  define b3 where "b3 = \<lparr>elems = (elems b1)[nat c := Some MarkO], props = []\<rparr>"
  define s1 where "s1 = App_init\<lparr>history := [Array9_null, b1], stepNumber := 1, xIsNext := False\<rparr>"
  define s2 where "s2 = App_init\<lparr>history := [Array9_null, b1, b2], stepNumber := 2, xIsNext := True\<rparr>"
  define s3 where "s3 = App_init\<lparr>history := [Array9_null, b1, b2], stepNumber := 1, xIsNext := False\<rparr>"
  define s4 where "s4 = App_init\<lparr>history := [Array9_null, b1, b3], stepNumber := 2, xIsNext := True\<rparr>"
  have w1: "calculateWinner b1 = None"
    unfolding b1_def using assms(1,2) by (intro no_winner_one_mark) simp
  have free: "sq_get b1 b = Some Null" "sq_get b1 c = Some Null"
    using assms by (auto simp: b1_def sq_get_def is_index_def nth_list_update)
  have e1: "exec (Click a) App_init = Inr s1"
    using exec_click_at [of App_init a] calculateWinner_empty assms(1,2)
    by (simp add: App_init_def s1_def b1_def Array9_null_def sq_get_def is_index_def)
  have e2: "exec (Click b) s1 = Inr s2"
    using exec_click_at [of s1 b] w1 free(1) assms(3,4)
    by (simp add: s1_def s2_def b2_def App_init_def)
  have e3: "exec Undo s2 = Inr s3"
    using exec_Undo_at [of s2]
    by (simp add: s2_def s3_def handleUndo_def js_rem_def App_init_def)
  have e4: "exec (Click c) s3 = Inr s4"
    using exec_click_at [of s3 c] w1 free(2) assms(5,6)
    by (simp add: s3_def s4_def b3_def App_init_def)
  have "run [Click a, Click b, Undo, Click c] App_init = Inr s4"
    by (simp add: e1 e2 e3 e4)
  then show ?thesis by (simp add: s4_def)
qed

text \<open>
  Claim C1. In a state whose cursor is within the history and whose turn flag agrees with
  the parity of the cursor, a play on a cell 0 to 8 that is empty on the board at the
  cursor, that board being in progress, succeeds: the history becomes its entries up to
  the cursor followed by one new board, whose cells are those of the board at the cursor
  except that the played cell holds the mark of the mover (X iff the cursor is even); the
  cursor becomes the last index of the new history, and the turn flag follows it. In
  particular, from the initial state, play, play on another cell, undo, play on a third
  cell leaves a history of three boards.
\<close>

theorem play_appends_move:
  "(0 \<le> stepNumber s \<and> stepNumber s < int (length (history s))
      \<and> xIsNext s = even (stepNumber s)
      \<and> 0 \<le> i \<and> i \<le> 8
      \<and> outcome_of (history s ! nat (stepNumber s)) = InProgress
      \<and> sq_get (history s ! nat (stepNumber s)) i = Some Null
    \<longrightarrow> (\<exists>s'. exec (Click i) s = Inr s'
           \<and> history s' = take (nat (stepNumber s) + 1) (history s)
                @ [\<lparr>elems = (elems (history s ! nat (stepNumber s)))
                              [nat i := Some (if even (stepNumber s) then MarkX else MarkO)],
                    props = []\<rparr>]
           \<and> stepNumber s' = int (length (history s')) - 1
           \<and> stepNumber s' = stepNumber s + 1
           \<and> xIsNext s' = even (stepNumber s')
           \<and> theme s' = theme s))
   \<and> (0 \<le> a \<and> a \<le> 8 \<and> 0 \<le> b \<and> b \<le> 8 \<and> 0 \<le> c \<and> c \<le> 8 \<and> b \<noteq> a \<and> c \<noteq> a \<and> c \<noteq> b
    \<longrightarrow> (\<exists>s'. run [Click a, Click b, Undo, Click c] App_init = Inr s'
           \<and> length (history s') = 3 \<and> stepNumber s' = 2))"
proof (intro conjI impI; elim conjE)
  let ?cur = "history s ! nat (stepNumber s)"
  assume r: "0 \<le> stepNumber s" "stepNumber s < int (length (history s))"
    and rest: "xIsNext s = even (stepNumber s)" "0 \<le> i" "i \<le> 8"
      "outcome_of ?cur = InProgress" "sq_get ?cur i = Some Null"
  from play_move [OF render_in_range [OF r] rest(1,2,3)] rest(4,5)
  show "\<exists>s'. exec (Click i) s = Inr s'
           \<and> history s' = take (nat (stepNumber s) + 1) (history s)
                @ [\<lparr>elems = (elems ?cur)
                              [nat i := Some (if even (stepNumber s) then MarkX else MarkO)],
                    props = []\<rparr>]
           \<and> stepNumber s' = int (length (history s')) - 1
           \<and> stepNumber s' = stepNumber s + 1
           \<and> xIsNext s' = even (stepNumber s')
           \<and> theme s' = theme s"
    by simp
next
  assume "0 \<le> a" "a \<le> 8" "0 \<le> b" "b \<le> 8" "0 \<le> c" "c \<le> 8" "b \<noteq> a" "c \<noteq> a" "c \<noteq> b"
  then show "\<exists>s'. run [Click a, Click b, Undo, Click c] App_init = Inr s'
           \<and> length (history s') = 3 \<and> stepNumber s' = 2"
    by (rule branch_pruning)
qed

theorem play_appends_move_witness:
  "outcome_of (history App_init ! nat (stepNumber App_init)) = InProgress
   \<and> sq_get (history App_init ! nat (stepNumber App_init)) 4 = Some Null
   \<and> (\<exists>s'. exec (Click 4) App_init = Inr s'
         \<and> history s' =
             [\<lparr>elems = [Some Null, Some Null, Some Null,
                               Some Null, Some Null, Some Null,
                               Some Null, Some Null, Some Null], props = []\<rparr>,
              \<lparr>elems = [Some Null, Some Null, Some Null,
                               Some Null, Some MarkX, Some Null,
                               Some Null, Some Null, Some Null], props = []\<rparr>]
         \<and> stepNumber s' = 1 \<and> xIsNext s' = False)
   \<and> (\<exists>s'. run [Click 0, Click 4, Undo, Click 8] App_init = Inr s'
         \<and> length (history s') = 3 \<and> stepNumber s' = 2)"
proof -
  have h: "outcome_of (history App_init ! nat (stepNumber App_init)) = InProgress"
    "sq_get (history App_init ! nat (stepNumber App_init)) 4 = Some Null"
    by code_simp+
  have s0: "stepNumber App_init = 0" "xIsNext App_init = True"
    "history App_init = [\<lparr>elems = [Some Null, Some Null, Some Null,
                                          Some Null, Some Null, Some Null,
                                          Some Null, Some Null, Some Null], props = []\<rparr>]"
    by (simp_all add: App_init_def Array9_null_def numeral_eq_Suc)
  have pre: "0 \<le> stepNumber App_init \<and> stepNumber App_init < int (length (history App_init))
      \<and> xIsNext App_init = even (stepNumber App_init)
      \<and> (0::int) \<le> 4 \<and> (4::int) \<le> 8
      \<and> outcome_of (history App_init ! nat (stepNumber App_init)) = InProgress
      \<and> sq_get (history App_init ! nat (stepNumber App_init)) 4 = Some Null"
    using h by (simp add: s0)
  have cells: "(0::int) \<le> 0 \<and> (0::int) \<le> 8 \<and> (0::int) \<le> 4 \<and> (4::int) \<le> 8 \<and> (0::int) \<le> 8 \<and> (8::int) \<le> 8
      \<and> (4::int) \<noteq> 0 \<and> (8::int) \<noteq> 0 \<and> (8::int) \<noteq> 4"
    by simp
  note inst = play_appends_move [of App_init 4 0 4 8]
  from inst pre obtain s' where s': "exec (Click 4) App_init = Inr s'"
    "history s' = take (nat (stepNumber App_init) + 1) (history App_init)
        @ [\<lparr>elems = (elems (history App_init ! nat (stepNumber App_init)))
                      [nat 4 := Some (if even (stepNumber App_init) then MarkX else MarkO)],
            props = []\<rparr>]"
    "stepNumber s' = stepNumber App_init + 1" "xIsNext s' = even (stepNumber s')"
    by blast
  have "history s' =
             [\<lparr>elems = [Some Null, Some Null, Some Null,
                               Some Null, Some Null, Some Null,
                               Some Null, Some Null, Some Null], props = []\<rparr>,
              \<lparr>elems = [Some Null, Some Null, Some Null,
                               Some Null, Some MarkX, Some Null,
                               Some Null, Some Null, Some Null], props = []\<rparr>]"
    unfolding s'(2) by (simp add: s0 numeral_eq_Suc)
  moreover have "stepNumber s' = 1" "xIsNext s' = False"
    using s'(3,4) by (simp_all add: s0)
  moreover from inst cells
  have "\<exists>s'. run [Click 0, Click 4, Undo, Click 8] App_init = Inr s'
         \<and> length (history s') = 3 \<and> stepNumber s' = 2"
    by blast
  ultimately show ?thesis using h s'(1) by blast
qed

text \<open>A click on a cell that exists and is occupied, or on a finished board.\<close>

lemma click_no_op:
  assumes "render s = Inr v" and "0 \<le> i" and "i \<le> 8"
    and "sq_get (currentSquares v) i \<noteq> None"
    and "outcome_of (currentSquares v) \<noteq> InProgress \<or> sq_get (currentSquares v) i \<noteq> Some Null"
  shows "exec (Click i) s = Inr s"
proof -
  from assms(4) obtain c where c: "sq_get (currentSquares v) i = Some c" by auto
  have w: "winnerInfo v = calculateWinner (currentSquares v)"
    using render_Inr(4) [OF assms(1)] .
  have "winnerInfo v \<noteq> None \<or> c \<noteq> Null"
  proof (cases "winnerInfo v")
    case None
    show ?thesis
    proof (cases "every_Boolean (currentSquares v)")
      case True
      have "Some c \<in> set (elems (currentSquares v))"
        using sq_get_cell [OF c assms(2,3)] by (metis nth_mem)
      with True have "truthy c" by (auto simp: every_Boolean_def list_all_iff)
      then show ?thesis by (simp add: truthy_iff)
    next
      case False
      with None w have "outcome_of (currentSquares v) = InProgress"
        by (simp add: outcome_of_def)
      with assms(5) c show ?thesis by simp
    qed
  next
    case (Some a)
    then show ?thesis by simp
  qed
  then have "winnerInfo v \<noteq> None \<or> sq_get (currentSquares v) i = Some MarkX
           \<or> sq_get (currentSquares v) i = Some MarkO"
    using c by (cases c) auto
  then show ?thesis by (rule exec_click_ignored [OF assms(1)])
qed

text \<open>On a finished board, a run of plays on cells the board has changes nothing.\<close>

lemma plays_no_op:
  assumes "render s = Inr v"
    and "outcome_of (currentSquares v) \<noteq> InProgress"
    and "list_all (\<lambda>i. 0 \<le> i \<and> i \<le> 8 \<and> sq_get (currentSquares v) i \<noteq> None) cells"
  shows "run (map Click cells) s = Inr s"
  using assms(3)
proof (induction cells)
  case Nil
  then show ?case by simp
next
  case (Cons i cells)
  then have i: "0 \<le> i" "i \<le> 8" "sq_get (currentSquares v) i \<noteq> None"
    and rest: "list_all (\<lambda>i. 0 \<le> i \<and> i \<le> 8 \<and> sq_get (currentSquares v) i \<noteq> None) cells"
    by simp_all
  have "exec (Click i) s = Inr s"
    using click_no_op [OF assms(1) i] assms(2) by simp
  with Cons.IH [OF rest] show ?case by simp
qed

lemma run_x_wins:
  "run [Click 0, Click 4, Click 1, Click 3, Click 2] App_init = Inr example_x_wins"
  by code_simp

text \<open>
  Claim C3, as stated, fails in its last part: a finished game does not keep the history
  as it is until a reset. After the moves 0, 4, 1, 3, 2 the board at the cursor is won by
  X; an undo moves the cursor to the board before the winning move, which is in progress,
  and a play on cell 5 there replaces the winning board.
\<close>

theorem play_after_undo_counterexample:
  "run [Click 0, Click 4, Click 1, Click 3, Click 2] App_init = Inr example_x_wins
   \<and> outcome_of (history example_x_wins ! nat (stepNumber example_x_wins)) = Win MarkX (0, 1, 2)
   \<and> run [Undo, Click 5] example_x_wins = Inr example_replayed
   \<and> history example_replayed \<noteq> history example_x_wins"
  by code_simp

text \<open>
  Claim C3, amended. In a state whose cursor is within the history, a play on a cell 0 to
  8 that the board at the cursor has (as every nine-cell board does) returns the state as
  it is, history, cursor, turn flag and all, whenever that board is won or drawn or the
  cell is not empty. Consequently, while the board at the cursor is won or drawn, any
  sequence of plays on such cells returns the state as it is: plays alone never change
  the history of a finished game.
\<close>

theorem terminal_or_occupied_plays_are_noops:
  "(0 \<le> stepNumber s \<and> stepNumber s < int (length (history s))
      \<and> 0 \<le> i \<and> i \<le> 8
      \<and> sq_get (history s ! nat (stepNumber s)) i \<noteq> None
      \<and> (outcome_of (history s ! nat (stepNumber s)) \<noteq> InProgress
          \<or> sq_get (history s ! nat (stepNumber s)) i \<noteq> Some Null)
    \<longrightarrow> exec (Click i) s = Inr s)
   \<and> (0 \<le> stepNumber s \<and> stepNumber s < int (length (history s))
      \<and> outcome_of (history s ! nat (stepNumber s)) \<noteq> InProgress
      \<and> list_all (\<lambda>i. 0 \<le> i \<and> i \<le> 8 \<and> sq_get (history s ! nat (stepNumber s)) i \<noteq> None) cells
    \<longrightarrow> run (map Click cells) s = Inr s)"
proof (intro conjI impI; elim conjE)
  assume r: "0 \<le> stepNumber s" "stepNumber s < int (length (history s))"
    and i: "0 \<le> i" "i \<le> 8"
    and h: "sq_get (history s ! nat (stepNumber s)) i \<noteq> None"
      "outcome_of (history s ! nat (stepNumber s)) \<noteq> InProgress
       \<or> sq_get (history s ! nat (stepNumber s)) i \<noteq> Some Null"
  from click_no_op [OF render_in_range [OF r] i] h
  show "exec (Click i) s = Inr s" by simp
next
  assume r: "0 \<le> stepNumber s" "stepNumber s < int (length (history s))"
    and h: "outcome_of (history s ! nat (stepNumber s)) \<noteq> InProgress"
      "list_all (\<lambda>i. 0 \<le> i \<and> i \<le> 8 \<and> sq_get (history s ! nat (stepNumber s)) i \<noteq> None) cells"
  from plays_no_op [OF render_in_range [OF r], of cells] h
  show "run (map Click cells) s = Inr s" by simp
qed

theorem terminal_or_occupied_plays_are_noops_witness:
  "run [Click 0, Click 4, Click 1, Click 3, Click 2] App_init = Inr example_x_wins
   \<and> outcome_of (history example_x_wins ! nat (stepNumber example_x_wins)) = Win MarkX (0, 1, 2)
   \<and> sq_get (history example_x_wins ! nat (stepNumber example_x_wins)) 5 = Some Null
   \<and> exec (Click 5) example_x_wins = Inr example_x_wins
   \<and> run (map Click [5, 0, 8, 5]) example_x_wins = Inr example_x_wins
   \<and> sq_get (history example_two_moves ! nat (stepNumber example_two_moves)) 4 = Some MarkO
   \<and> outcome_of (history example_two_moves ! nat (stepNumber example_two_moves)) = InProgress
   \<and> exec (Click 4) example_two_moves = Inr example_two_moves"
proof -
  have won: "outcome_of (history example_x_wins ! nat (stepNumber example_x_wins)) = Win MarkX (0, 1, 2)"
    "sq_get (history example_x_wins ! nat (stepNumber example_x_wins)) 5 = Some Null"
    by code_simp+
  have cells: "list_all (\<lambda>i. 0 \<le> i \<and> i \<le> 8
        \<and> sq_get (history example_x_wins ! nat (stepNumber example_x_wins)) i \<noteq> None) [5, 0, 8, 5]"
    by code_simp
  have two: "sq_get (history example_two_moves ! nat (stepNumber example_two_moves)) 4 = Some MarkO"
    "outcome_of (history example_two_moves ! nat (stepNumber example_two_moves)) = InProgress"
    by code_simp+
  have rng: "0 \<le> stepNumber example_x_wins \<and> stepNumber example_x_wins < int (length (history example_x_wins))"
    "0 \<le> stepNumber example_two_moves \<and> stepNumber example_two_moves < int (length (history example_two_moves))"
    by (simp_all add: example_x_wins_def example_two_moves_def)
  note won_inst = terminal_or_occupied_plays_are_noops [of example_x_wins 5 "[5, 0, 8, 5]"]
  note two_inst = terminal_or_occupied_plays_are_noops [of example_two_moves 4 "[]"]
  have pre1: "0 \<le> stepNumber example_x_wins
      \<and> stepNumber example_x_wins < int (length (history example_x_wins))
      \<and> (0::int) \<le> 5 \<and> (5::int) \<le> 8
      \<and> sq_get (history example_x_wins ! nat (stepNumber example_x_wins)) 5 \<noteq> None
      \<and> (outcome_of (history example_x_wins ! nat (stepNumber example_x_wins)) \<noteq> InProgress
          \<or> sq_get (history example_x_wins ! nat (stepNumber example_x_wins)) 5 \<noteq> Some Null)"
    using rng(1) won by simp
  have pre2: "0 \<le> stepNumber example_x_wins
      \<and> stepNumber example_x_wins < int (length (history example_x_wins))
      \<and> outcome_of (history example_x_wins ! nat (stepNumber example_x_wins)) \<noteq> InProgress
      \<and> list_all (\<lambda>i. 0 \<le> i \<and> i \<le> 8
            \<and> sq_get (history example_x_wins ! nat (stepNumber example_x_wins)) i \<noteq> None)
          [5, 0, 8, 5]"
    using rng(1) won(1) cells by simp
  have pre3: "0 \<le> stepNumber example_two_moves
      \<and> stepNumber example_two_moves < int (length (history example_two_moves))
      \<and> (0::int) \<le> 4 \<and> (4::int) \<le> 8
      \<and> sq_get (history example_two_moves ! nat (stepNumber example_two_moves)) 4 \<noteq> None
      \<and> (outcome_of (history example_two_moves ! nat (stepNumber example_two_moves)) \<noteq> InProgress
          \<or> sq_get (history example_two_moves ! nat (stepNumber example_two_moves)) 4 \<noteq> Some Null)"
    using rng(2) two by simp
  have "exec (Click 5) example_x_wins = Inr example_x_wins"
    using won_inst pre1 by blast
  moreover have "run (map Click [5, 0, 8, 5]) example_x_wins = Inr example_x_wins"
    using won_inst pre2 by blast
  moreover have "exec (Click 4) example_two_moves = Inr example_two_moves"
    using two_inst pre3 by blast
  ultimately show ?thesis using run_x_wins won two by blast
qed

subsection \<open>Clicks outside the board\<close>

text \<open>The write of \<open>handleClick\<close> is read back at the position written.\<close>

lemma sq_set_get_same: "sq_get (sq_set (slice_copy b) i m) i = Some m"
  by (simp add: sq_set_def slice_copy_def sq_get_def nth_append)

text \<open>A write at a position outside 0 to 8 leaves the cells 0 to 8 as they read before.\<close>

lemma sq_set_outside_cells:
  assumes "i < 0 \<or> 8 < i" and "j < 9"
  shows "sq_get (sq_set (slice_copy b) i m) (int j) = sq_get b (int j)"
proof -
  have ij: "is_index (int j)" using assms(2) by (simp add: is_index_def)
  show ?thesis
  proof (cases "is_index i")
    case True
    with assms have far: "j < nat i" by (simp add: is_index_def)
    show ?thesis
      using far ij True
      by (auto simp: sq_set_def slice_copy_def sq_get_def nth_append nth_list_update)
  next
    case False
    then show ?thesis
      using ij by (simp add: sq_set_def slice_copy_def sq_get_def)
  qed
qed

lemma nine_cells_outside:
  assumes "length (elems b) = 9" and "props b = []" and "i < 0 \<or> 8 < i"
  shows "sq_get b i = None"
  using assms by (auto simp: sq_get_def is_index_def)

lemma click_outside:
  assumes "render s = Inr v" and "i < 0 \<or> 8 < i"
    and "outcome_of (currentSquares v) = InProgress"
    and "sq_get (currentSquares v) i \<noteq> Some MarkX" and "sq_get (currentSquares v) i \<noteq> Some MarkO"
  shows "\<exists>nb. exec (Click i) s =
               Inr (s\<lparr>history := take (nat (stepNumber s) + 1) (history s) @ [nb],
                      stepNumber := stepNumber s + 1,
                      xIsNext := \<not> xIsNext s\<rparr>)
           \<and> map (\<lambda>j. sq_get nb (int j)) [0..<9] = map (\<lambda>j. sq_get (currentSquares v) (int j)) [0..<9]
           \<and> sq_get nb i = Some (if xIsNext s then MarkX else MarkO)"
proof -
  let ?cur = "currentSquares v"
  let ?m = "if xIsNext s then MarkX else MarkO"
  let ?nb = "sq_set (slice_copy ?cur) i ?m"
  have w: "winnerInfo v = None" using outcome_InProgress(1) [OF assms(1,3)] .
  have empty: "sq_get ?cur i = None \<or> sq_get ?cur i = Some Null"
  proof (cases "sq_get ?cur i")
    case None
    then show ?thesis by simp
  next
    case (Some c)
    with assms(4,5) show ?thesis by (cases c) simp_all
  qed
  have ex: "exec (Click i) s =
               Inr (s\<lparr>history := take (nat (stepNumber s) + 1) (history s) @ [?nb],
                      stepNumber := stepNumber s + 1,
                      xIsNext := \<not> xIsNext s\<rparr>)"
    using exec_click_move [OF assms(1) w empty] .
  have cells: "map (\<lambda>j. sq_get ?nb (int j)) [0..<9] = map (\<lambda>j. sq_get ?cur (int j)) [0..<9]"
    using sq_set_outside_cells [OF assms(2)] by (intro map_cong) simp_all
  from ex cells sq_set_get_same [of ?cur i ?m] show ?thesis by blast
qed

text \<open>
  Claim C10, as stated, fails on a board that already holds a mark at the position played:
  after a first play on position 9 from the initial state, the board at the cursor is
  still in progress, and a second play on position 9 is ignored as a play on an occupied
  cell is.
\<close>

theorem click_outside_twice_counterexample:
  "exec (Click 9) App_init = Inr example_mark_outside
   \<and> outcome_of (history example_mark_outside ! nat (stepNumber example_mark_outside)) = InProgress
   \<and> exec (Click 9) example_mark_outside = Inr example_mark_outside"
  by code_simp

text \<open>
  Claim C10, amended. An array of exactly nine cells has nothing at an integer position
  outside 0 to 8. In a state whose cursor is within the history and whose board at the
  cursor is in progress, a play on an integer position outside 0 to 8 at which that board
  holds no mark is not ignored: a new board is appended after the entries up to the
  cursor, the cursor advances by one and the turn flag flips; cells 0 to 8 of the new
  board read as those of the board at the cursor, and the mark is stored at the position
  played.
\<close>

theorem click_outside_board_appends:
  "(length (elems b) = 9 \<and> props b = [] \<and> (i < 0 \<or> 8 < i) \<longrightarrow> sq_get b i = None)
   \<and> (0 \<le> stepNumber s \<and> stepNumber s < int (length (history s))
       \<and> (i < 0 \<or> 8 < i)
       \<and> outcome_of (history s ! nat (stepNumber s)) = InProgress
       \<and> sq_get (history s ! nat (stepNumber s)) i \<noteq> Some MarkX
       \<and> sq_get (history s ! nat (stepNumber s)) i \<noteq> Some MarkO
      \<longrightarrow> (\<exists>nb. exec (Click i) s =
               Inr (s\<lparr>history := take (nat (stepNumber s) + 1) (history s) @ [nb],
                      stepNumber := stepNumber s + 1,
                      xIsNext := \<not> xIsNext s\<rparr>)
             \<and> map (\<lambda>j. sq_get nb (int j)) [0..<9]
                 = map (\<lambda>j. sq_get (history s ! nat (stepNumber s)) (int j)) [0..<9]
             \<and> sq_get nb i = Some (if xIsNext s then MarkX else MarkO)))"
proof (intro conjI impI; elim conjE)
  assume "length (elems b) = 9" "props b = []" "i < 0 \<or> 8 < i"
  then show "sq_get b i = None" by (rule nine_cells_outside)
next
  assume r: "0 \<le> stepNumber s" "stepNumber s < int (length (history s))"
    and h: "i < 0 \<or> 8 < i" "outcome_of (history s ! nat (stepNumber s)) = InProgress"
      "sq_get (history s ! nat (stepNumber s)) i \<noteq> Some MarkX"
      "sq_get (history s ! nat (stepNumber s)) i \<noteq> Some MarkO"
  from click_outside [OF render_in_range [OF r] h(1)] h(2,3,4)
  show "\<exists>nb. exec (Click i) s =
               Inr (s\<lparr>history := take (nat (stepNumber s) + 1) (history s) @ [nb],
                      stepNumber := stepNumber s + 1,
                      xIsNext := \<not> xIsNext s\<rparr>)
             \<and> map (\<lambda>j. sq_get nb (int j)) [0..<9]
                 = map (\<lambda>j. sq_get (history s ! nat (stepNumber s)) (int j)) [0..<9]
             \<and> sq_get nb i = Some (if xIsNext s then MarkX else MarkO)"
    by simp
qed

theorem click_outside_board_appends_witness:
  "outcome_of (history App_init ! nat (stepNumber App_init)) = InProgress
   \<and> sq_get (history App_init ! nat (stepNumber App_init)) (- 1) = None
   \<and> (\<exists>nb. exec (Click (- 1)) App_init =
              Inr (App_init\<lparr>history := take (nat (stepNumber App_init) + 1) (history App_init) @ [nb],
                      stepNumber := stepNumber App_init + 1,
                      xIsNext := \<not> xIsNext App_init\<rparr>)
           \<and> map (\<lambda>j. sq_get nb (int j)) [0..<9]
               = map (\<lambda>j. sq_get (history App_init ! nat (stepNumber App_init)) (int j)) [0..<9]
           \<and> sq_get nb (- 1) = Some (if xIsNext App_init then MarkX else MarkO))
   \<and> exec (Click (- 1)) App_init =
       Inr \<lparr>history =
             [\<lparr>elems = [Some Null, Some Null, Some Null,
                               Some Null, Some Null, Some Null,
                               Some Null, Some Null, Some Null], props = []\<rparr>,
              \<lparr>elems = [Some Null, Some Null, Some Null,
                               Some Null, Some Null, Some Null,
                               Some Null, Some Null, Some Null], props = [(- 1, MarkX)]\<rparr>],
            stepNumber = 1, xIsNext = False, theme = ''light''\<rparr>"
proof -
  have h: "outcome_of (history App_init ! nat (stepNumber App_init)) = InProgress"
    by code_simp
  have nine: "length (elems (history App_init ! nat (stepNumber App_init))) = 9
      \<and> props (history App_init ! nat (stepNumber App_init)) = [] \<and> ((- 1 :: int) < 0 \<or> 8 < (- 1 :: int))"
    by (simp add: App_init_def Array9_null_def)
  note inst = click_outside_board_appends
    [of "history App_init ! nat (stepNumber App_init)" "- 1" App_init]
  from inst nine have free: "sq_get (history App_init ! nat (stepNumber App_init)) (- 1) = None"
    by blast
  have pre: "0 \<le> stepNumber App_init \<and> stepNumber App_init < int (length (history App_init))
       \<and> ((- 1 :: int) < 0 \<or> 8 < (- 1 :: int))"
    by (simp add: App_init_def)
  from inst pre h free
  have step: "\<exists>nb. exec (Click (- 1)) App_init =
              Inr (App_init\<lparr>history := take (nat (stepNumber App_init) + 1) (history App_init) @ [nb],
                      stepNumber := stepNumber App_init + 1,
                      xIsNext := \<not> xIsNext App_init\<rparr>)
           \<and> map (\<lambda>j. sq_get nb (int j)) [0..<9]
               = map (\<lambda>j. sq_get (history App_init ! nat (stepNumber App_init)) (int j)) [0..<9]
           \<and> sq_get nb (- 1) = Some (if xIsNext App_init then MarkX else MarkO)"
    by simp
  have e1: "exec (Click (- 1)) App_init =
       Inr \<lparr>history =
             [\<lparr>elems = [Some Null, Some Null, Some Null,
                               Some Null, Some Null, Some Null,
                               Some Null, Some Null, Some Null], props = []\<rparr>,
              \<lparr>elems = [Some Null, Some Null, Some Null,
                               Some Null, Some Null, Some Null,
                               Some Null, Some Null, Some Null], props = [(- 1, MarkX)]\<rparr>],
            stepNumber = 1, xIsNext = False, theme = ''light''\<rparr>"
    by code_simp
  from h free step e1 show ?thesis by blast
qed

section \<open>Invariants of the reachable states\<close>

lemma filter_single:
  assumes "i < n" and "P i" and "\<And>j. j < n \<Longrightarrow> j \<noteq> i \<Longrightarrow> \<not> P j"
  shows "filter P [0..<n] = [i]"
proof -
  have "[0..<n] = [0..<i] @ [i..<n]"
    using assms(1) upt_add_eq_append [of 0 i "n - i"] by simp
  then have parts: "[0..<n] = [0..<i] @ i # [Suc i..<n]"
    using assms(1) by (simp add: upt_conv_Cons)
  have "filter P [0..<i] = []" "filter P [Suc i..<n] = []"
    using assms(1,3) by (auto simp: filter_empty_conv)
  with parts assms(2) show ?thesis by simp
qed

lemma game_inv_iff:
  "game_inv s =
     (0 \<le> stepNumber s \<and> stepNumber s < int (length (history s))
      \<and> xIsNext s = even (stepNumber s)
      \<and> (\<forall>b \<in> set (history s). board9 b)
      \<and> (\<forall>k. Suc k < length (history s) \<longrightarrow> one_move k (history s ! k) (history s ! Suc k)))"
  by (auto simp: game_inv_def list_all_iff)

lemma game_inv_init: "game_inv App_init"
  by (simp add: game_inv_def App_init_def Array9_null_def board9_def list_all_iff)

text \<open>Writing a mark into an empty cell of a nine-cell board is one move.\<close>

lemma board9_cell:
  assumes "board9 b" and "0 \<le> i" and "i \<le> 8"
  shows "sq_get b i = Some Null \<or> sq_get b i = Some MarkX \<or> sq_get b i = Some MarkO"
proof -
  have "nat i < length (elems b)" using assms by (simp add: board9_def)
  moreover from this have "elems b ! nat i \<noteq> None"
    using assms(1) by (simp add: board9_def list_all_length)
  ultimately obtain c where "sq_get b i = Some c"
    using assms(2,3) by (auto simp: sq_get_def is_index_def)
  then show ?thesis by (cases c) simp_all
qed

lemma board9_set:
  assumes "board9 b" and "0 \<le> i" and "i \<le> 8"
  shows "sq_set (slice_copy b) i v = \<lparr>elems = (elems b)[nat i := Some v], props = []\<rparr>"
    and "board9 (sq_set (slice_copy b) i v)"
  using assms
  by (auto simp: sq_set_def slice_copy_def board9_def is_index_def list_all_length nth_list_update)

lemma one_move_set:
  assumes "board9 b" and "0 \<le> i" and "i \<le> 8" and "sq_get b i = Some Null"
  shows "one_move k b (sq_set (slice_copy b) i (mover k))"
proof -
  let ?b' = "sq_set (slice_copy b) i (mover k)"
  have len: "length (elems b) = 9" using assms(1) by (simp add: board9_def)
  have b': "?b' = \<lparr>elems = (elems b)[nat i := Some (mover k)], props = []\<rparr>"
    using board9_set(1) [OF assms(1-3)] .
  have get': "\<And>j. j < 9 \<Longrightarrow> sq_get ?b' (int j) = (if j = nat i then Some (mover k) else sq_get b (int j))"
    using len assms(2,3) by (auto simp: b' sq_get_def is_index_def)
  have i9: "nat i < 9" using assms(2,3) by simp
  have ii: "int (nat i) = i" using assms(2) by simp
  have neq: "Some (mover k) \<noteq> Some Null" by (simp add: mover_def)
  have "filter (\<lambda>j. sq_get ?b' (int j) \<noteq> sq_get b (int j)) [0..<9] = [nat i]"
  proof (rule filter_single [OF i9])
    show "sq_get ?b' (int (nat i)) \<noteq> sq_get b (int (nat i))"
      using get' [OF i9] assms(4) neq unfolding ii by simp
  next
    fix j assume "j < 9" "j \<noteq> nat i"
    then show "\<not> sq_get ?b' (int j) \<noteq> sq_get b (int j)"
      using get' by simp
  qed
  moreover have "sq_get b (int (nat i)) = Some Null" using assms(4) unfolding ii by simp
  moreover have "sq_get ?b' (int (nat i)) = Some (mover k)" using get' [OF i9] by simp
  ultimately show ?thesis
    unfolding one_move_def list_ex_iff using i9 by (intro bexI [of _ "nat i"]) auto
qed

lemma exec_Inr:
  assumes "exec c s = Inr s'"
  obtains v where "render s = Inr v"
    and "s' = (case c of Click i \<Rightarrow> handleClick v i s | JumpTo step \<Rightarrow> jumpTo step s
               | Reset \<Rightarrow> handleReset s | Undo \<Rightarrow> handleUndo s | Redo \<Rightarrow> handleRedo s
               | ToggleTheme \<Rightarrow> toggleTheme s)"
  using assms by (auto simp: exec_def split: sum.splits)

lemma game_inv_click:
  assumes inv: "game_inv s" and r: "render s = Inr v" and i: "0 \<le> i" "i \<le> 8"
  shows "game_inv (handleClick v i s)"
proof -
  let ?n = "nat (stepNumber s)"
  let ?cur = "currentSquares v"
  note I = inv [unfolded game_inv_iff]
  have cur: "?cur = history s ! ?n" and w: "winnerInfo v = calculateWinner ?cur"
    using render_Inr [OF r] by simp_all
  have n: "?n < length (history s)" using I by linarith
  have b9: "board9 ?cur" using I n cur by simp
  consider (ignored) "winnerInfo v \<noteq> None \<or> sq_get ?cur i = Some MarkX \<or> sq_get ?cur i = Some MarkO"
    | (move) "winnerInfo v = None" "sq_get ?cur i = Some Null"
    using board9_cell [OF b9 i] by blast
  then show ?thesis
  proof cases
    case ignored
    then show ?thesis using inv by (simp add: handleClick_ignored)
  next
    case move
    let ?nb = "sq_set (slice_copy ?cur) i (if xIsNext s then MarkX else MarkO)"
    let ?h = "take (?n + 1) (history s) @ [?nb]"
    have eq: "handleClick v i s = s\<lparr>history := ?h, stepNumber := stepNumber s + 1, xIsNext := \<not> xIsNext s\<rparr>"
      using handleClick_move [OF r move(1)] move(2) by simp
    have mark: "(if xIsNext s then MarkX else MarkO) = mover ?n"
      using I by (simp add: mover_def even_nat_iff)
    have lenh: "length ?h = ?n + 2" using n by simp
    have nb9: "board9 ?nb" using board9_set(2) [OF b9 i] .
    have boards: "\<forall>b \<in> set ?h. board9 b"
      using I nb9 by (auto dest: in_set_takeD)
    have moves: "one_move k (?h ! k) (?h ! Suc k)" if "Suc k < length ?h" for k
    proof (cases "k = ?n")
      case True
      have "?h ! k = ?cur" using True n cur by (simp add: nth_append)
      moreover have "?h ! Suc k = ?nb" using True n by (simp add: nth_append)
      ultimately show ?thesis
        using one_move_set [OF b9 i move(2), of ?n] mark True by simp
    next
      case False
      with that lenh have k: "Suc k < ?n + 1" by simp
      then have "?h ! k = history s ! k" "?h ! Suc k = history s ! Suc k"
        using n by (simp_all add: nth_append)
      moreover have "Suc k < length (history s)" using k n by simp
      ultimately show ?thesis using I by simp
    qed
    have "0 \<le> stepNumber s + 1 \<and> stepNumber s + 1 < int (length ?h)"
      using I lenh by simp
    moreover have "(\<not> xIsNext s) = even (stepNumber s + 1)" using I by simp
    ultimately show ?thesis
      unfolding eq game_inv_iff using boards moves by simp
  qed
qed

lemma game_inv_exec:
  assumes "game_inv s" and "legal c s" and "exec c s = Inr s'"
  shows "game_inv s'"
proof -
  from assms(3) obtain v where r: "render s = Inr v"
    and s': "s' = (case c of Click i \<Rightarrow> handleClick v i s | JumpTo step \<Rightarrow> jumpTo step s
               | Reset \<Rightarrow> handleReset s | Undo \<Rightarrow> handleUndo s | Redo \<Rightarrow> handleRedo s
               | ToggleTheme \<Rightarrow> toggleTheme s)"
    by (rule exec_Inr)
  show ?thesis
  proof (cases c)
    case (Click i)
    then show ?thesis using game_inv_click [OF assms(1) r] assms(2) s' by simp
  next
    case (JumpTo step)
    then show ?thesis using assms(1,2) s'
      by (simp add: game_inv_def jumpTo_def js_rem_2_even)
  next
    case Reset
    then show ?thesis using s' game_inv_init
      by (simp add: game_inv_def handleReset_def App_init_def)
  next
    case Undo
    then show ?thesis using assms(1) s'
      by (simp add: game_inv_def handleUndo_def js_rem_2_even)
  next
    case Redo
    then show ?thesis using assms(1) s'
      by (simp add: game_inv_def handleRedo_def js_rem_2_even)
  next
    case ToggleTheme
    then show ?thesis using assms(1) s'
      by (simp add: game_inv_def toggleTheme_def)
  qed
qed

lemma reachable_game_inv: "reachable s \<Longrightarrow> game_inv s"
  by (induction rule: reachable.induct) (auto intro: game_inv_init game_inv_exec)

text \<open>Runs of clicks and buttons from a reachable state end in reachable states.\<close>

lemma reachable_run:
  "reachable s \<Longrightarrow> list_all (\<lambda>c. case c of Click i \<Rightarrow> 0 \<le> i \<and> i \<le> 8 | JumpTo _ \<Rightarrow> False | _ \<Rightarrow> True) cs \<Longrightarrow>
   run cs s = Inr s' \<Longrightarrow> reachable s'"
proof (induction cs arbitrary: s)
  case Nil
  then show ?case by simp
next
  case (Cons c cs)
  from Cons.prems(3) obtain m where m: "exec c s = Inr m" "run cs m = Inr s'"
    by (auto split: sum.splits)
  have "legal c s" using Cons.prems(2) by (cases c) simp_all
  from reachable.step [OF Cons.prems(1) this m(1)] Cons.IH [of m] Cons.prems(2) m(2)
  show ?case by simp
qed

lemma run_two_moves: "run [Click 0, Click 4] App_init = Inr example_two_moves"
  by code_simp

lemma reachable_two_moves: "reachable example_two_moves"
  using reachable_run [OF reachable.start _ run_two_moves] by simp

text \<open>
  Claim C4. In every state reached from the initial one by legal commands (plays on
  cells 0 to 8, jumps to a step within the history, undo, redo, reset, theme toggles),
  the stored turn flag equals \<^verbatim>\<open>cursor % 2 === 0\<close>: X is to move iff the cursor is even.
\<close>

theorem turn_parity_invariant:
  assumes "reachable s"
  shows "xIsNext s = (js_rem (stepNumber s) 2 = 0) \<and> xIsNext s = even (stepNumber s)"
  using reachable_game_inv [OF assms] by (simp add: game_inv_def js_rem_2_even)

theorem turn_parity_invariant_witness:
  "reachable example_two_moves
   \<and> stepNumber example_two_moves = 2 \<and> xIsNext example_two_moves = True
   \<and> xIsNext example_two_moves = (js_rem (stepNumber example_two_moves) 2 = 0)
   \<and> xIsNext example_two_moves = even (stepNumber example_two_moves)"
  using turn_parity_invariant [OF reachable_two_moves] reachable_two_moves
  by (simp add: example_two_moves_def)

text \<open>
  Claim C5. In every state reached from the initial one by legal commands, any two
  consecutive boards \<open>k\<close> and \<open>k + 1\<close> of the history differ in exactly one of the cells
  0 to 8, and that cell is empty in board \<open>k\<close> and holds the mark of the mover of step
  \<open>k\<close> (X iff \<open>k\<close> is even) in board \<open>k + 1\<close>.
\<close>

theorem history_steps_one_move:
  assumes "reachable s" and "Suc k < length (history s)"
  shows "one_move k (history s ! k) (history s ! Suc k)"
  using reachable_game_inv [OF assms(1)] assms(2) by (simp add: game_inv_iff)

theorem history_steps_one_move_witness:
  "reachable example_two_moves
   \<and> Suc 1 < length (history example_two_moves)
   \<and> one_move 1 (history example_two_moves ! 1) (history example_two_moves ! Suc 1)
   \<and> sq_get (history example_two_moves ! 1) 4 = Some Null
   \<and> sq_get (history example_two_moves ! Suc 1) 4 = Some MarkO"
proof -
  have len: "Suc 1 < length (history example_two_moves)"
    by (simp add: example_two_moves_def)
  have "sq_get (history example_two_moves ! 1) 4 = Some Null"
    "sq_get (history example_two_moves ! Suc 1) 4 = Some MarkO"
    by code_simp+
  with history_steps_one_move [OF reachable_two_moves len] reachable_two_moves len
  show ?thesis by simp
qed

section \<open>The theme does not reach the game\<close>

lemma render_game: "game s = game s' \<Longrightarrow> render s = render s'"
  by (simp add: game_def render_def)

lemma handler_game:
  assumes "game s = game s'" and "c \<noteq> ToggleTheme"
  shows "game (case c of Click i \<Rightarrow> handleClick v i s | JumpTo step \<Rightarrow> jumpTo step s
               | Reset \<Rightarrow> handleReset s | Undo \<Rightarrow> handleUndo s | Redo \<Rightarrow> handleRedo s
               | ToggleTheme \<Rightarrow> toggleTheme s)
       = game (case c of Click i \<Rightarrow> handleClick v i s' | JumpTo step \<Rightarrow> jumpTo step s'
               | Reset \<Rightarrow> handleReset s' | Undo \<Rightarrow> handleUndo s' | Redo \<Rightarrow> handleRedo s'
               | ToggleTheme \<Rightarrow> toggleTheme s')"
  using assms
  by (cases c)
    (simp_all add: game_def handleClick_def jumpTo_def handleReset_def handleUndo_def
      handleRedo_def Let_def)

lemma exec_game:
  assumes "game s = game s'" and "c \<noteq> ToggleTheme"
  shows "rel_sum (=) (\<lambda>a b. game a = game b) (exec c s) (exec c s')"
proof (cases "render s")
  case (Inl e)
  moreover from this have "render s' = Inl e" using render_game [OF assms(1)] by simp
  ultimately show ?thesis by (simp add: exec_def)
next
  case (Inr v)
  moreover from this have "render s' = Inr v" using render_game [OF assms(1)] by simp
  ultimately show ?thesis using handler_game [OF assms, of v] by (simp add: exec_def)
qed

lemma exec_toggle:
  "exec ToggleTheme s = (case render s of Inl e \<Rightarrow> Inl e | Inr v \<Rightarrow> Inr (toggleTheme s))"
  "game (toggleTheme s) = game s"
  by (simp_all add: exec_def toggleTheme_def game_def split: sum.splits)

lemma exec_crashed: "render s = Inl e \<Longrightarrow> exec c s = Inl e"
  by (simp add: exec_def)

lemma observe_crashed: "render s = Inl e \<Longrightarrow> observe cs s = Inl e"
  by (cases cs) (simp_all add: observe_def exec_crashed)

lemma observe_Cons:
  "observe (c # cs) s = (case exec c s of Inl e \<Rightarrow> Inl e | Inr s' \<Rightarrow> observe cs s')"
  by (simp add: observe_def split: sum.splits)

lemma observe_game_commands:
  "game s = game s' \<Longrightarrow> observe cs s = observe (game_commands cs) s'"
proof (induction cs arbitrary: s s')
  case Nil
  then show ?case
    using render_game [OF Nil] by (simp add: observe_def game_commands_def split: sum.splits)
next
  case (Cons c cs)
  show ?case
  proof (cases "c = ToggleTheme")
    case True
    show ?thesis
    proof (cases "render s")
      case (Inl e)
      then have "render s' = Inl e" using render_game [OF Cons.prems] by simp
      then show ?thesis using Inl by (simp add: observe_crashed)
    next
      case (Inr v)
      have "game (toggleTheme s) = game s'" using Cons.prems by (simp add: exec_toggle(2))
      from Cons.IH [OF this] show ?thesis
        using True Inr by (simp add: observe_Cons exec_toggle(1) game_commands_def)
    qed
  next
    case False
    have gc: "game_commands (c # cs) = c # game_commands cs"
      using False by (simp add: game_commands_def)
    note rel = exec_game [OF Cons.prems False]
    show ?thesis
    proof (cases "exec c s")
      case (Inl e)
      with rel have "exec c s' = Inl e" by (cases "exec c s'") simp_all
      with Inl show ?thesis by (simp add: gc observe_Cons)
    next
      case (Inr a)
      with rel obtain b where b: "exec c s' = Inr b" "game a = game b"
        by (cases "exec c s'") simp_all
      from Cons.IH [OF b(2)] Inr b(1) show ?thesis by (simp add: gc observe_Cons)
    qed
  qed
qed

lemma run_game_commands:
  "game s = game s' \<Longrightarrow> run cs s = Inr a \<Longrightarrow>
   \<exists>b. run (game_commands cs) s' = Inr b \<and> game b = game a"
proof (induction cs arbitrary: s s')
  case Nil
  then show ?case by (simp add: game_commands_def)
next
  case (Cons c cs)
  from Cons.prems(2) obtain m where m: "exec c s = Inr m" and rest: "run cs m = Inr a"
    by (auto split: sum.splits)
  show ?case
  proof (cases "c = ToggleTheme")
    case True
    with m have "m = toggleTheme s" by (auto simp: exec_toggle(1) split: sum.splits)
    then have "game m = game s'" using Cons.prems(1) by (simp add: exec_toggle(2))
    from Cons.IH [OF this rest] show ?thesis using True by (simp add: game_commands_def)
  next
    case False
    have gc: "game_commands (c # cs) = c # game_commands cs"
      using False by (simp add: game_commands_def)
    from exec_game [OF Cons.prems(1) False] m obtain m' where
      m': "exec c s' = Inr m'" and g: "game m = game m'"
      by (cases "exec c s'") simp_all
    from Cons.IH [OF g rest] show ?thesis by (simp add: gc m')
  qed
qed

text \<open>
  Claim C9. Two runs from states that differ at most in the theme, whose commands are the
  same once the theme toggles are dropped, show the same thing at their end (the same
  error, or the same history, cursor, turn flag and derived view: current board, winner
  with its line, draw flag); and when both runs return a state, the two states have the
  same history, cursor and turn flag.
\<close>

theorem theme_noninterference:
  assumes "game_commands cs1 = game_commands cs2"
  shows "observe cs1 (s\<lparr>theme := t1\<rparr>) = observe cs2 (s\<lparr>theme := t2\<rparr>)
         \<and> (\<forall>a b. run cs1 (s\<lparr>theme := t1\<rparr>) = Inr a \<and> run cs2 (s\<lparr>theme := t2\<rparr>) = Inr b
                \<longrightarrow> game a = game b)"
proof
  have g1: "game (s\<lparr>theme := t1\<rparr>) = game s" and g2: "game (s\<lparr>theme := t2\<rparr>) = game s"
    by (simp_all add: game_def)
  show "observe cs1 (s\<lparr>theme := t1\<rparr>) = observe cs2 (s\<lparr>theme := t2\<rparr>)"
    using observe_game_commands [OF g1, of cs1] observe_game_commands [OF g2, of cs2] assms
    by simp
  show "\<forall>a b. run cs1 (s\<lparr>theme := t1\<rparr>) = Inr a \<and> run cs2 (s\<lparr>theme := t2\<rparr>) = Inr b
                \<longrightarrow> game a = game b"
  proof (intro allI impI, elim conjE)
    fix a b
    assume a: "run cs1 (s\<lparr>theme := t1\<rparr>) = Inr a" and b: "run cs2 (s\<lparr>theme := t2\<rparr>) = Inr b"
    from run_game_commands [OF g1 a] obtain a' where
      "run (game_commands cs1) s = Inr a'" "game a' = game a" by auto
    moreover from run_game_commands [OF g2 b] obtain b' where
      "run (game_commands cs2) s = Inr b'" "game b' = game b" by auto
    ultimately show "game a = game b" using assms by simp
  qed
qed

theorem theme_noninterference_witness:
  "game_commands [ToggleTheme, Click 0, ToggleTheme, Click 4] = game_commands [Click 0, Click 4, ToggleTheme]
   \<and> observe [ToggleTheme, Click 0, ToggleTheme, Click 4] (App_init\<lparr>theme := ''dark''\<rparr>)
     = observe [Click 0, Click 4, ToggleTheme] (App_init\<lparr>theme := ''light''\<rparr>)
   \<and> run [ToggleTheme, Click 0, ToggleTheme, Click 4] (App_init\<lparr>theme := ''dark''\<rparr>)
       = Inr (example_two_moves\<lparr>theme := ''dark''\<rparr>)
   \<and> run [Click 0, Click 4, ToggleTheme] (App_init\<lparr>theme := ''light''\<rparr>)
       = Inr (example_two_moves\<lparr>theme := ''dark''\<rparr>)"
proof -
  have g: "game_commands [ToggleTheme, Click 0, ToggleTheme, Click 4] = game_commands [Click 0, Click 4, ToggleTheme]"
    by (simp add: game_commands_def)
  have r1: "run [ToggleTheme, Click 0, ToggleTheme, Click 4] (App_init\<lparr>theme := ''dark''\<rparr>)
       = Inr (example_two_moves\<lparr>theme := ''dark''\<rparr>)"
    by code_simp
  have r2: "run [Click 0, Click 4, ToggleTheme] (App_init\<lparr>theme := ''light''\<rparr>)
       = Inr (example_two_moves\<lparr>theme := ''dark''\<rparr>)"
    by code_simp
  from theme_noninterference [OF g, where s = App_init and ?t1.0 = "''dark''" and ?t2.0 = "''light''"] g r1 r2
  show ?thesis by simp
qed

end
